theory Spec2Isabelle
  imports Main "HOL-Library.Word" "HOL-Library.Log_Nat"
begin

section \<open>Data model of \<open>include/fixed-string\<close>\<close>

text \<open>
  A \<open>char\<close> is one byte. Whether it is signed is left to the platform by the language, so
  the promotion of a \<open>char\<close> to \<open>int\<close> takes the signedness as a parameter.
\<close>

type_synonym cchar = "8 word"

definition char_to_int :: "bool \<Rightarrow> cchar \<Rightarrow> int" where
  "char_to_int char_signed c = (if char_signed then sint c else uint c)"

text \<open>
  The ways an operation can end without a value:
  \<^item> \<open>Terminated msg\<close>: \<open>FS_ASSERT\<close> failed with checks enabled; the message is printed
    and \<open>std::terminate\<close> is called;
  \<^item> \<open>Undefined\<close>: an access outside the \<open>std::array\<close>, reachable only with checks
    disabled (\<open>NDEBUG\<close> or \<open>FS_NOASSERT\<close>);
  \<^item> \<open>Rejected\<close>: a \<open>requires\<close> clause is not satisfied, the instantiation does not compile.
\<close>

datatype failure = Terminated string | Undefined | Rejected

text \<open>
  \<open>String<N>\<close>: the template parameter \<open>N\<close> (the static member \<open>size\<close>) and the member
  \<open>_arr\<close>, a \<open>std::array<char, N + 1>\<close>.
\<close>

record String =
  size_N :: nat
  arr :: "cchar list"

text \<open>What the type \<open>std::array<char, size + 1>\<close> says about \<open>_arr\<close>.\<close>

definition wf_String :: "String \<Rightarrow> bool" where
  "wf_String s = (length (arr s) = size_N s + 1)"

text \<open>Invariant I1: the slot at index \<open>N\<close> holds the terminator.\<close>

definition I1 :: "String \<Rightarrow> bool" where
  "I1 s = (arr s ! size_N s = 0)"

section \<open>Construction\<close>

text \<open>\<open>std::copy_n(first, count, result)\<close>, writing \<open>dst[pos + i] = src[i]\<close> for \<open>i < count\<close>.\<close>

fun copy_n :: "'a list \<Rightarrow> nat \<Rightarrow> 'a list \<Rightarrow> nat \<Rightarrow> 'a list" where
  "copy_n src 0 dst pos = dst"
| "copy_n src (Suc n) dst pos = (copy_n src n dst pos)[pos + n := src ! n]"

text \<open>
  \<open>arr_from_str<N>\<close>: the local array is not initialised and every one of its \<open>N + 1\<close>
  slots is then written by \<open>copy_n\<close>; the model starts it from zeros.
\<close>

definition arr_from_str :: "bool \<Rightarrow> nat \<Rightarrow> cchar list \<Rightarrow> failure + cchar list" where
  "arr_from_str checks N str =
     (if checks \<and> \<not> (str ! N = 0) then Inl (Terminated ''String literal must be null-terminated'')
      else Inr (copy_n str (N + 1) (replicate (N + 1) 0) 0))"

text \<open>\<open>explicit String()\<close>: zero-initialisation.\<close>

definition String_default :: "nat \<Rightarrow> String" where
  "String_default N = \<lparr>size_N = N, arr = replicate (N + 1) 0\<rparr>"

text \<open>\<open>String(char const (&str)[size + 1])\<close>.\<close>

definition String_from_literal :: "bool \<Rightarrow> nat \<Rightarrow> cchar list \<Rightarrow> failure + String" where
  "String_from_literal checks N str =
     (case arr_from_str checks N str of
        Inl e \<Rightarrow> Inl e
      | Inr a \<Rightarrow> Inr \<lparr>size_N = N, arr = a\<rparr>)"

text \<open>\<open>explicit String(std::array<char, size + 1>&& str)\<close>.\<close>

definition String_from_array :: "bool \<Rightarrow> nat \<Rightarrow> cchar list \<Rightarrow> failure + String" where
  "String_from_array checks N str =
     (if checks \<and> \<not> (str ! N = 0) then Inl (Terminated ''char array must be null-terminated'')
      else Inr \<lparr>size_N = N, arr = str\<rparr>)"

text \<open>\<open>explicit String(char c) requires (size == 1)\<close>: both slots are assigned.\<close>

definition String_from_char :: "nat \<Rightarrow> cchar \<Rightarrow> failure + String" where
  "String_from_char N c =
     (if N = 1 then Inr \<lparr>size_N = 1, arr = (replicate 2 0)[0 := c, 1 := 0]\<rparr> else Inl Rejected)"

text \<open>The defaulted copy and move assignment between two \<open>String<N>\<close>.\<close>

definition operator_assign :: "String \<Rightarrow> String \<Rightarrow> String" where
  "operator_assign lhs rhs = rhs"

section \<open>Member functions\<close>

text \<open>\<open>std::array::operator[]\<close>, which does not check its index.\<close>

definition array_at :: "'a list \<Rightarrow> nat \<Rightarrow> failure + 'a" where
  "array_at a i = (if i < length a then Inr (a ! i) else Inl Undefined)"

text \<open>
  \<open>operator[]\<close>: \<open>FS_ASSERT(i < size, ...)\<close>, then \<open>_arr[i]\<close>. With checks disabled the
  read at \<open>i = N\<close> is still inside the array; beyond it the access is undefined.
\<close>

definition operator_subscript :: "bool \<Rightarrow> String \<Rightarrow> nat \<Rightarrow> failure + cchar" where
  "operator_subscript checks s i =
     (if checks \<and> \<not> i < size_N s then Inl (Terminated ''subscript index out of bounds'')
      else array_at (arr s) i)"

function contains_loop :: "bool \<Rightarrow> String \<Rightarrow> cchar \<Rightarrow> nat \<Rightarrow> failure + bool" where
  "contains_loop checks s c i =
     (if i < size_N s then
        (case operator_subscript checks s i of
           Inl e \<Rightarrow> Inl e
         | Inr x \<Rightarrow> if x = c then Inr True else contains_loop checks s c (i + 1))
      else Inr False)"
  by pat_completeness auto
termination
  by (relation "measure (\<lambda>(checks, s, c, i). size_N s - i)") auto

definition contains :: "bool \<Rightarrow> String \<Rightarrow> cchar \<Rightarrow> failure + bool" where
  "contains checks s c = contains_loop checks s c 0"

function find_loop :: "bool \<Rightarrow> String \<Rightarrow> cchar \<Rightarrow> nat \<Rightarrow> failure + nat" where
  "find_loop checks s c i =
     (if i < size_N s then
        (case operator_subscript checks s i of
           Inl e \<Rightarrow> Inl e
         | Inr x \<Rightarrow> if x = c then Inr i else find_loop checks s c (i + 1))
      else Inr (size_N s))"
  by pat_completeness auto
termination
  by (relation "measure (\<lambda>(checks, s, c, i). size_N s - i)") auto

definition find_String :: "bool \<Rightarrow> String \<Rightarrow> cchar \<Rightarrow> failure + nat" where
  "find_String checks s c = find_loop checks s c 0"

text \<open>
  \<open>atoi\<close>: \<open>r *= 10; r += _arr[i] - '0'\<close> on a \<open>std::size_t\<close>, a word of some width. The
  difference is an \<open>int\<close> and is converted to the word on \<open>+=\<close>. \<open>_arr\<close> is read
  directly, without \<open>FS_ASSERT\<close>.
\<close>

function atoi_loop :: "bool \<Rightarrow> String \<Rightarrow> nat \<Rightarrow> 'w::len word \<Rightarrow> failure + 'w word" where
  "atoi_loop char_signed s i r =
     (if i < size_N s then
        (case array_at (arr s) i of
           Inl e \<Rightarrow> Inl e
         | Inr c \<Rightarrow>
             atoi_loop char_signed s (i + 1) (r * 10 + word_of_int (char_to_int char_signed c - 48)))
      else Inr r)"
  by pat_completeness auto
termination
  by (relation "measure (\<lambda>(char_signed, s, i, r). size_N s - i)") auto

definition atoi :: "bool \<Rightarrow> String \<Rightarrow> failure + 'w::len word" where
  "atoi char_signed s = atoi_loop char_signed s 0 0"

section \<open>Non-member functions\<close>

text \<open>\<open>std::equal(first1, last1, first2)\<close>; reading past the second range is undefined.\<close>

fun std_equal :: "'a list \<Rightarrow> 'a list \<Rightarrow> bool option" where
  "std_equal [] ys = Some True"
| "std_equal (x # xs) [] = None"
| "std_equal (x # xs) (y # ys) = (if x = y then std_equal xs ys else Some False)"

text \<open>\<open>streq\<close>: \<open>if constexpr (N != M) { return false; }\<close> comes before the comparison.\<close>

definition streq :: "String \<Rightarrow> String \<Rightarrow> bool option" where
  "streq lhs rhs =
     (if size_N lhs \<noteq> size_N rhs then Some False else std_equal (arr lhs) (arr rhs))"

definition operator_eq :: "String \<Rightarrow> String \<Rightarrow> bool option" where
  "operator_eq lhs rhs = streq lhs rhs"

definition operator_plus :: "String \<Rightarrow> String \<Rightarrow> String" where
  "operator_plus lhs rhs =
     (let N = size_N lhs; M = size_N rhs;
          rtn = String_default (N + M);
          a1 = copy_n (arr lhs) N (arr rtn) 0;
          a2 = copy_n (arr rhs) M a1 N
      in rtn\<lparr>arr := a2[N + M := 0]\<rparr>)"

function substring_loop ::
  "bool \<Rightarrow> nat \<Rightarrow> nat \<Rightarrow> String \<Rightarrow> cchar list \<Rightarrow> nat \<Rightarrow> failure + cchar list" where
  "substring_loop checks Begin End s r i =
     (if i < End - Begin then
        (case operator_subscript checks s (Begin + i) of
           Inl e \<Rightarrow> Inl e
         | Inr x \<Rightarrow> substring_loop checks Begin End s (r[i := x]) (i + 1))
      else Inr r)"
  by pat_completeness auto
termination
  by (relation "measure (\<lambda>(checks, Begin, End, s, r, i). End - Begin - i)") auto

text \<open>\<open>substring<Begin, End>\<close> with its \<open>requires\<close> clause.\<close>

definition substring :: "bool \<Rightarrow> nat \<Rightarrow> nat \<Rightarrow> String \<Rightarrow> failure + String" where
  "substring checks Begin End s =
     (if Begin \<ge> 0 \<and> End \<le> size_N s \<and> Begin \<le> End then
        (case substring_loop checks Begin End s (arr (String_default (End - Begin))) 0 of
           Inl e \<Rightarrow> Inl e
         | Inr r \<Rightarrow> Inr \<lparr>size_N = End - Begin, arr = r[End - Begin := 0]\<rparr>)
      else Inl Rejected)"

section \<open>Integer to string\<close>

text \<open>
  The variable template \<open>log10<x>\<close>. Its type is \<open>unsigned char\<close>, initialised with braces,
  so a value above 255 would not compile; no unsigned integral type has that many digits.
\<close>

fun log10 :: "nat \<Rightarrow> nat" where
  "log10 x = (if x \<noteq> 0 then 1 + log10 (x div 10) else 0)"

declare log10.simps [simp del]

text \<open>
  The loop of \<open>array_itoa\<close>: \<open>_arr[i--] = static_cast<char>(n % 10U + '0')\<close>. The index
  \<open>i\<close> is an \<open>unsigned char\<close>, and the array does not check it.
\<close>

function array_itoa_loop :: "nat \<Rightarrow> 8 word \<Rightarrow> cchar list \<Rightarrow> failure + cchar list" where
  "array_itoa_loop n i a =
     (if n > 0 then
        (if unat i < length a then
           array_itoa_loop (n div 10) (i - 1) (a[unat i := of_nat (n mod 10 + 48)])
         else Inl Undefined)
      else Inr a)"
  by pat_completeness auto
termination
  by (relation "measure (\<lambda>(n, i, a). n)") auto

declare array_itoa_loop.simps [simp del]

definition array_itoa :: "nat \<Rightarrow> failure + cchar list" where
  "array_itoa x =
     array_itoa_loop x (of_nat (log10 x)) ((replicate (log10 x + 2) 0)[log10 x + 1 := 0])"

text \<open>\<open>itoa<x>\<close>, a \<open>String<log10<x> + 1>\<close> built from the array.\<close>

definition itoa :: "bool \<Rightarrow> nat \<Rightarrow> failure + String" where
  "itoa checks x =
     (case array_itoa x of
        Inl e \<Rightarrow> Inl e
      | Inr a \<Rightarrow> String_from_array checks (log10 x + 1) a)"

section \<open>Auxiliary facts\<close>

lemma length_copy_n: "length (copy_n src n dst pos) = length dst"
  by (induction n) simp_all

lemma nth_copy_n:
  "j < length dst \<Longrightarrow>
   copy_n src n dst pos ! j = (if pos \<le> j \<and> j < pos + n then src ! (j - pos) else dst ! j)"
proof (induction n)
  case 0
  then show ?case by auto
next
  case (Suc n)
  then show ?case
    by (cases "j = pos + n") (auto simp: length_copy_n)
qed

lemma copy_n_all:
  "length dst = n \<Longrightarrow> n \<le> length src \<Longrightarrow> copy_n src n dst 0 = take n src"
  by (rule nth_equalityI) (simp_all add: length_copy_n nth_copy_n)

lemma std_equal_same_length:
  "length xs = length ys \<Longrightarrow> std_equal xs ys = Some (xs = ys)"
  by (induction xs ys rule: list_induct2) simp_all

lemma arr_operator_plus:
  assumes "wf_String a" "wf_String b"
  shows "arr (operator_plus a b) = take (size_N a) (arr a) @ take (size_N b) (arr b) @ [0]"
proof (rule nth_equalityI)
  show "length (arr (operator_plus a b)) = length (take (size_N a) (arr a) @ take (size_N b) (arr b) @ [0])"
    using assms by (simp add: operator_plus_def Let_def String_default_def length_copy_n wf_String_def)
next
  fix i assume "i < length (arr (operator_plus a b))"
  then have i: "i < size_N a + size_N b + 1"
    by (simp add: operator_plus_def Let_def String_default_def length_copy_n)
  then show "arr (operator_plus a b) ! i = (take (size_N a) (arr a) @ take (size_N b) (arr b) @ [0]) ! i"
    using assms
    by (auto simp: operator_plus_def Let_def String_default_def length_copy_n nth_copy_n
        nth_list_update nth_append wf_String_def)
qed

lemma size_operator_plus: "size_N (operator_plus a b) = size_N a + size_N b"
  by (simp add: operator_plus_def Let_def String_default_def)

lemma wf_String_operator_plus: "wf_String a \<Longrightarrow> wf_String b \<Longrightarrow> wf_String (operator_plus a b)"
  by (simp add: wf_String_def arr_operator_plus size_operator_plus)

lemma operator_subscript_in_range:
  "wf_String s \<Longrightarrow> i < size_N s \<Longrightarrow> operator_subscript checks s i = Inr (arr s ! i)"
  by (simp add: operator_subscript_def array_at_def wf_String_def)

lemma find_loop_spec:
  "wf_String s \<Longrightarrow> i \<le> size_N s \<Longrightarrow>
   \<exists>k. find_loop checks s c i = Inr k \<and> i \<le> k \<and> k \<le> size_N s \<and>
       (\<forall>j. i \<le> j \<and> j < k \<longrightarrow> arr s ! j \<noteq> c) \<and> (k < size_N s \<longrightarrow> arr s ! k = c)"
proof (induction checks s c i rule: find_loop.induct)
  case (1 checks s c i)
  show ?case
  proof (cases "i < size_N s")
    case False
    with "1.prems" show ?thesis by auto
  next
    case True
    note sub = operator_subscript_in_range [OF "1.prems"(1) True, of checks]
    show ?thesis
    proof (cases "arr s ! i = c")
      case True
      with \<open>i < size_N s\<close> sub show ?thesis by auto
    next
      case False
      from "1.IH" [OF True sub False "1.prems"(1)] True
      obtain k where k: "find_loop checks s c (i + 1) = Inr k" "i + 1 \<le> k" "k \<le> size_N s"
        "\<forall>j. i + 1 \<le> j \<and> j < k \<longrightarrow> arr s ! j \<noteq> c" "k < size_N s \<longrightarrow> arr s ! k = c"
        by auto
      have "\<forall>j. i \<le> j \<and> j < k \<longrightarrow> arr s ! j \<noteq> c"
      proof (intro allI impI)
        fix j assume "i \<le> j \<and> j < k"
        then show "arr s ! j \<noteq> c" using k(4) False by (cases "j = i") auto
      qed
      moreover have "find_loop checks s c i = Inr k"
        using True sub False k(1) by simp
      ultimately show ?thesis using k by auto
    qed
  qed
qed

lemma substring_loop_spec:
  "wf_String s \<Longrightarrow> End \<le> size_N s \<Longrightarrow> Begin \<le> End \<Longrightarrow> End - Begin < length r \<Longrightarrow>
   \<exists>r'. substring_loop checks Begin End s r i = Inr r' \<and> length r' = length r \<and>
     (\<forall>j < length r. r' ! j = (if i \<le> j \<and> j < End - Begin then arr s ! (Begin + j) else r ! j))"
proof (induction checks Begin End s r i rule: substring_loop.induct)
  case (1 checks Begin End s r i)
  show ?case
  proof (cases "i < End - Begin")
    case False
    then show ?thesis by auto
  next
    case True
    with "1.prems" have "Begin + i < size_N s" by simp
    note sub = operator_subscript_in_range [OF "1.prems"(1) this, of checks]
    from "1.prems" have len: "End - Begin < length (r[i := arr s ! (Begin + i)])" by simp
    from "1.IH" [OF True sub "1.prems"(1,2,3) len]
    obtain r' where r': "substring_loop checks Begin End s (r[i := arr s ! (Begin + i)]) (i + 1) = Inr r'"
      "length r' = length r"
      "\<forall>j < length r. r' ! j = (if i + 1 \<le> j \<and> j < End - Begin then arr s ! (Begin + j)
          else r[i := arr s ! (Begin + i)] ! j)"
      by auto
    have eq: "substring_loop checks Begin End s r i = Inr r'"
      using True sub r'(1) by simp
    have "\<forall>j < length r. r' ! j = (if i \<le> j \<and> j < End - Begin then arr s ! (Begin + j) else r ! j)"
    proof (intro allI impI)
      fix j assume "j < length r"
      with r'(3) True show "r' ! j = (if i \<le> j \<and> j < End - Begin then arr s ! (Begin + j) else r ! j)"
        by (cases "j = i") auto
    qed
    with eq r'(2) show ?thesis by simp
  qed
qed

lemma atoi_loop_closed:
  "wf_String s \<Longrightarrow> i \<le> size_N s \<Longrightarrow>
   atoi_loop char_signed s i r =
     Inr (r * 10 ^ (size_N s - i) +
     word_of_int (\<Sum>j = i..<size_N s. (char_to_int char_signed (arr s ! j) - 48) * 10 ^ (size_N s - 1 - j)))"
proof (induction char_signed s i r rule: atoi_loop.induct)
  case (1 char_signed s i r)
  show ?case
  proof (cases "i < size_N s")
    case False
    with "1.prems" show ?thesis by simp
  next
    case True
    then have pw: "size_N s - i = Suc (size_N s - (i + 1))" by simp
    have at: "array_at (arr s) i = Inr (arr s ! i)"
      using True "1.prems"(1) by (simp add: array_at_def wf_String_def)
    have "atoi_loop char_signed s i r =
        atoi_loop char_signed s (i + 1) (r * 10 + word_of_int (char_to_int char_signed (arr s ! i) - 48))"
      using True at by simp
    also have "\<dots> = Inr ((r * 10 + word_of_int (char_to_int char_signed (arr s ! i) - 48)) * 10 ^ (size_N s - (i + 1)) +
        word_of_int (\<Sum>j = i + 1..<size_N s. (char_to_int char_signed (arr s ! j) - 48) * 10 ^ (size_N s - 1 - j)))"
      using True at "1.prems"(1) by (intro "1.IH") simp_all
    also have "\<dots> = Inr (r * 10 ^ (size_N s - i) +
        word_of_int (\<Sum>j = i..<size_N s. (char_to_int char_signed (arr s ! j) - 48) * 10 ^ (size_N s - 1 - j)))"
      using True
      by (simp add: pw sum.atLeast_Suc_lessThan [of i "size_N s"] algebra_simps del: of_int_sum)
    finally show ?thesis .
  qed
qed

lemma operator_plus_eq:
  "wf_String a \<Longrightarrow> wf_String b \<Longrightarrow>
   operator_plus a b =
     \<lparr>size_N = size_N a + size_N b, arr = take (size_N a) (arr a) @ take (size_N b) (arr b) @ [0]\<rparr>"
  using arr_operator_plus [of a b] size_operator_plus [of a b]
  by (cases "operator_plus a b") simp

subsection \<open>The loop of \<open>substring\<close>\<close>

lemma substring_loop_length:
  "substring_loop checks Begin End s r i = Inr r' \<Longrightarrow> length r' = length r"
proof (induction checks Begin End s r i rule: substring_loop.induct)
  case (1 checks Begin End s r i)
  show ?case
  proof (cases "i < End - Begin")
    case False
    with "1.prems" show ?thesis by simp
  next
    case True
    with "1.prems" obtain x where x: "operator_subscript checks s (Begin + i) = Inr x"
      by (cases "operator_subscript checks s (Begin + i)") simp_all
    with True "1.prems" have "substring_loop checks Begin End s (r[i := x]) (i + 1) = Inr r'"
      by simp
    from "1.IH" [OF True x this] show ?thesis by simp
  qed
qed

lemma substring_Inr:
  assumes "wf_String s" and "Begin \<le> End" and "End \<le> size_N s"
  shows "\<exists>a. substring checks Begin End s = Inr \<lparr>size_N = End - Begin, arr = a\<rparr> \<and>
           length a = End - Begin + 1 \<and>
           (\<forall>i < End - Begin. a ! i = arr s ! (Begin + i)) \<and> a ! (End - Begin) = 0"
proof -
  let ?r0 = "arr (String_default (End - Begin))"
  have len0: "End - Begin < length ?r0" by (simp add: String_default_def)
  from substring_loop_spec [OF assms(1,3,2) len0, of checks 0]
  obtain r where r: "substring_loop checks Begin End s ?r0 0 = Inr r" "length r = length ?r0"
    "\<forall>j < length ?r0. r ! j = (if j < End - Begin then arr s ! (Begin + j) else ?r0 ! j)"
    by auto
  have lr: "length r = End - Begin + 1" using r(2) by (simp add: String_default_def)
  have "substring checks Begin End s = Inr \<lparr>size_N = End - Begin, arr = r[End - Begin := 0]\<rparr>"
    using assms(2,3) r(1) by (simp add: substring_def)
  moreover have "\<forall>i < End - Begin. r[End - Begin := 0] ! i = arr s ! (Begin + i)"
    using r(3) by (simp add: String_default_def)
  moreover have "r[End - Begin := 0] ! (End - Begin) = 0"
    using lr by simp
  ultimately show ?thesis using lr by simp
qed

lemma substring_whole:
  assumes "wf_String s"
  shows "substring checks 0 (size_N s) s = Inr \<lparr>size_N = size_N s, arr = (arr s)[size_N s := 0]\<rparr>"
proof -
  from substring_Inr [OF assms, of 0 "size_N s" checks]
  obtain a where a: "substring checks 0 (size_N s) s = Inr \<lparr>size_N = size_N s, arr = a\<rparr>"
    "length a = size_N s + 1" "\<forall>i < size_N s. a ! i = arr s ! i" "a ! size_N s = 0"
    by auto
  from assms have ls: "length (arr s) = size_N s + 1" by (simp add: wf_String_def)
  have "a = (arr s)[size_N s := 0]"
  proof (rule nth_equalityI)
    show "length a = length ((arr s)[size_N s := 0])" using a(2) ls by simp
  next
    fix i assume "i < length a"
    with a(2) have "i < size_N s \<or> i = size_N s" by auto
    then show "a ! i = (arr s)[size_N s := 0] ! i" using a(3,4) ls by auto
  qed
  with a(1) show ?thesis by simp
qed

subsection \<open>Comparison of all slots\<close>

lemma streq_all_slots:
  assumes "wf_String a" and "wf_String b"
  shows "streq a b = Some (size_N a = size_N b \<and> (\<forall>i \<le> size_N a. arr a ! i = arr b ! i))"
proof (cases "size_N a = size_N b")
  case False
  then show ?thesis by (simp add: streq_def)
next
  case True
  from assms True have len: "length (arr a) = length (arr b)" "length (arr a) = Suc (size_N a)"
    by (simp_all add: wf_String_def)
  have "(arr a = arr b) = (\<forall>i \<le> size_N a. arr a ! i = arr b ! i)"
    using len by (auto simp: list_eq_iff_nth_eq less_Suc_eq_le)
  with True len(1) show ?thesis
    by (simp add: streq_def std_equal_same_length)
qed

subsection \<open>\<open>log10\<close> and the loop of \<open>array_itoa\<close>\<close>

lemma log10_pos: "0 < n \<Longrightarrow> log10 n = Suc (log10 (n div 10))"
  by (subst log10.simps) simp

lemma log10_zero: "log10 0 = 0"
  by (subst log10.simps) simp

lemma log10_floorlog: "log10 x = floorlog 10 x"
proof (induction x rule: log10.induct)
  case (1 x)
  show ?case
  proof (cases "x = 0")
    case True
    then show ?thesis by (simp add: log10_zero floorlog_def)
  next
    case False
    with 1 show ?thesis
      by (simp add: log10_pos compute_floorlog [of 10 x])
  qed
qed

lemma array_itoa_loop_frame:
  "log10 n \<le> unat i \<Longrightarrow> unat i < length a \<Longrightarrow>
   \<exists>a'. array_itoa_loop n i a = Inr a' \<and> length a' = length a \<and>
        (\<forall>k. unat i < k \<longrightarrow> a' ! k = a ! k) \<and>
        (\<forall>k. k + log10 n \<le> unat i \<longrightarrow> a' ! k = a ! k)"
proof (induction n i a rule: array_itoa_loop.induct)
  case (1 n i a)
  show ?case
  proof (cases "0 < n")
    case False
    then show ?thesis by (simp add: array_itoa_loop.simps)
  next
    case True
    let ?a = "a[unat i := of_nat (n mod 10 + 48)]"
    from True "1.prems"(1) have pos: "log10 (n div 10) < unat i"
      by (simp add: log10_pos)
    then have "i \<noteq> 0" by auto
    then have dec: "unat (i - 1) = unat i - 1"
      by (simp add: unat_minus_one)
    from pos dec have p1: "log10 (n div 10) \<le> unat (i - 1)" by simp
    from dec "1.prems"(2) have p2: "unat (i - 1) < length ?a" by simp
    from "1.IH" [OF True "1.prems"(2) p1 p2]
    obtain a' where a': "array_itoa_loop (n div 10) (i - 1) ?a = Inr a'" "length a' = length ?a"
      "\<forall>k. unat (i - 1) < k \<longrightarrow> a' ! k = ?a ! k"
      "\<forall>k. k + log10 (n div 10) \<le> unat (i - 1) \<longrightarrow> a' ! k = ?a ! k"
      by blast
    have eq: "array_itoa_loop n i a = Inr a'"
      using True "1.prems"(2) a'(1) by (subst array_itoa_loop.simps) simp
    have above: "\<forall>k. unat i < k \<longrightarrow> a' ! k = a ! k"
    proof (intro allI impI)
      fix k assume "unat i < k"
      with a'(3) dec show "a' ! k = a ! k" by simp
    qed
    have below: "\<forall>k. k + log10 n \<le> unat i \<longrightarrow> a' ! k = a ! k"
    proof (intro allI impI)
      fix k assume "k + log10 n \<le> unat i"
      with True have "k + log10 (n div 10) \<le> unat (i - 1)" "k \<noteq> unat i"
        using dec by (simp_all add: log10_pos)
      with a'(4) show "a' ! k = a ! k" by simp
    qed
    from eq a'(2) above below show ?thesis by simp
  qed
qed

lemma array_itoa_loop_high:
  "array_itoa_loop n i a = Inr a' \<Longrightarrow> length a' = length a \<and> (\<forall>k. 256 \<le> k \<longrightarrow> a' ! k = a ! k)"
proof (induction n i a rule: array_itoa_loop.induct)
  case (1 n i a)
  show ?case
  proof (cases "0 < n")
    case False
    with "1.prems" show ?thesis by (simp add: array_itoa_loop.simps)
  next
    case True
    let ?a = "a[unat i := of_nat (n mod 10 + 48)]"
    from "1.prems" True have r: "unat i < length a" "array_itoa_loop (n div 10) (i - 1) ?a = Inr a'"
      by (simp_all add: array_itoa_loop.simps [of n i a] split: if_splits)
    from "1.IH" [OF True r] have ih: "length a' = length ?a" "\<forall>k. 256 \<le> k \<longrightarrow> a' ! k = ?a ! k"
      by simp_all
    have "unat i < 256" using unsigned_less [of i, where 'a = nat] by simp
    with ih show ?thesis by auto
  qed
qed

lemma array_itoa_initial:
  fixes a0 :: "cchar list"
  assumes "a0 = (replicate (l + 2) 0)[l + 1 := 0]"
  shows "length a0 = l + 2" and "k < l + 2 \<Longrightarrow> a0 ! k = 0"
proof -
  define m where "m = l + 2"
  have a0: "a0 = (replicate m 0)[l + 1 := 0]" using assms by (simp only: m_def)
  show "length a0 = l + 2" by (simp add: a0) (simp add: m_def)
  assume "k < l + 2"
  then have "k < m" "l + 1 < m" by (simp_all add: m_def)
  then show "a0 ! k = 0" by (simp add: a0 nth_list_update)
qed

lemma array_itoa_terminated:
  assumes "array_itoa x = Inr a"
  shows "length a = log10 x + 2 \<and> a ! (log10 x + 1) = 0"
proof -
  define a0 :: "cchar list" where "a0 = (replicate (log10 x + 2) 0)[log10 x + 1 := 0]"
  note init = array_itoa_initial [OF a0_def]
  from assms have run: "array_itoa_loop x (of_nat (log10 x)) a0 = Inr a"
    by (simp only: array_itoa_def a0_def)
  show ?thesis
  proof (cases "log10 x < 256")
    case True
    then have u: "unat (of_nat (log10 x) :: 8 word) = log10 x"
      by (simp add: unat_of_nat)
    have "log10 x \<le> unat (of_nat (log10 x) :: 8 word)" "unat (of_nat (log10 x) :: 8 word) < length a0"
      using u init(1) by simp_all
    from array_itoa_loop_frame [OF this] run u
    have "length a = length a0" "\<forall>k. log10 x < k \<longrightarrow> a ! k = a0 ! k"
      by auto
    then have "length a = log10 x + 2" "a ! (log10 x + 1) = a0 ! (log10 x + 1)"
      using init(1) by simp_all
    with init(2) [of "log10 x + 1"] show ?thesis by simp
  next
    case False
    from array_itoa_loop_high [OF run] False
    have "length a = length a0" "a ! (log10 x + 1) = a0 ! (log10 x + 1)"
      by simp_all
    with init(1) init(2) [of "log10 x + 1"] show ?thesis by simp
  qed
qed

text \<open>
  What \<open>itoa<x>\<close> is for every \<open>x > 0\<close> of an unsigned integral type (fewer than 256
  digits): a \<open>String\<close> of length one more than the number of decimal digits of \<open>x\<close>, whose
  slot 0 keeps the zero of the initialisation.
\<close>

lemma itoa_leading_zero:
  assumes "0 < x" and "log10 x < 256"
  shows "\<exists>s. itoa checks x = Inr s \<and> size_N s = floorlog 10 x + 1 \<and> wf_String s \<and> I1 s \<and>
             arr s ! 0 = 0"
proof -
  define a0 :: "cchar list" where "a0 = (replicate (log10 x + 2) 0)[log10 x + 1 := 0]"
  note init = array_itoa_initial [OF a0_def]
  from assms(2) have u: "unat (of_nat (log10 x) :: 8 word) = log10 x"
    by (simp add: unat_of_nat)
  have "log10 x \<le> unat (of_nat (log10 x) :: 8 word)" "unat (of_nat (log10 x) :: 8 word) < length a0"
    using u init(1) by simp_all
  from array_itoa_loop_frame [OF this] u
  obtain a where a: "array_itoa_loop x (of_nat (log10 x)) a0 = Inr a" "a ! 0 = a0 ! 0"
    by auto
  from a(1) have r: "array_itoa x = Inr a" by (simp only: array_itoa_def a0_def)
  from array_itoa_terminated [OF r] have t: "length a = log10 x + 2" "a ! (log10 x + 1) = 0"
    by simp_all
  from a(2) init(2) [of 0] have "a ! 0 = 0" by simp
  with r t show ?thesis
    by (simp add: itoa_def String_from_array_def wf_String_def I1_def log10_floorlog)
qed

subsection \<open>The terminator slot\<close>

lemma I1_operator_plus: "I1 (operator_plus a b)"
  by (simp add: I1_def operator_plus_def Let_def String_default_def length_copy_n)

lemma I1_substring: "substring checks Begin End s = Inr r \<Longrightarrow> I1 r"
proof -
  assume h: "substring checks Begin End s = Inr r"
  then obtain a where a:
    "substring_loop checks Begin End s (arr (String_default (End - Begin))) 0 = Inr a"
    "r = \<lparr>size_N = End - Begin, arr = a[End - Begin := 0]\<rparr>"
    by (auto simp: substring_def simp del: substring_loop.simps split: if_splits sum.splits)
  from substring_loop_length [OF a(1)] have "length a = End - Begin + 1"
    by (simp add: String_default_def)
  with a(2) show "I1 r" by (simp add: I1_def)
qed

lemma I1_itoa: "itoa checks x = Inr r \<Longrightarrow> I1 r"
proof -
  assume h: "itoa checks x = Inr r"
  then obtain a where a: "array_itoa x = Inr a" "String_from_array checks (log10 x + 1) a = Inr r"
    by (auto simp: itoa_def split: sum.splits)
  from a(2) have "r = \<lparr>size_N = log10 x + 1, arr = a\<rparr>"
    by (auto simp: String_from_array_def split: if_splits)
  with array_itoa_terminated [OF a(1)] show "I1 r" by (simp add: I1_def)
qed

lemma arr_from_str_checked:
  "arr_from_str True N str = Inr a \<Longrightarrow> str ! N = 0"
  by (simp add: arr_from_str_def split: if_splits)

lemma arr_from_str_terminated:
  "str ! N = 0 \<Longrightarrow> \<exists>a. arr_from_str checks N str = Inr a"
  by (simp add: arr_from_str_def del: copy_n.simps)

lemma nth_arr_from_str: "arr_from_str checks N str = Inr a \<Longrightarrow> a ! N = str ! N"
proof -
  assume h: "arr_from_str checks N str = Inr a"
  define z :: "cchar list" where "z = replicate (N + 1) 0"
  define m where "m = N + 1"
  have lz: "N < length z" by (simp add: z_def)
  from h have "a = copy_n str m z 0"
    by (auto simp: arr_from_str_def z_def m_def simp del: copy_n.simps replicate.simps split: if_splits)
  moreover have "copy_n str m z 0 ! N = str ! N"
    using nth_copy_n [OF lz, of str m 0] by (simp add: m_def)
  ultimately show "a ! N = str ! N" by (simp only:)
qed

lemma I1_String_from_literal:
  "String_from_literal checks N str = Inr s \<Longrightarrow> I1 s = (str ! N = 0)"
proof -
  assume h: "String_from_literal checks N str = Inr s"
  then obtain a where a: "arr_from_str checks N str = Inr a" "s = \<lparr>size_N = N, arr = a\<rparr>"
    by (cases "arr_from_str checks N str") (simp_all add: String_from_literal_def)
  from nth_arr_from_str [OF a(1)] a(2) show ?thesis by (simp add: I1_def)
qed

lemma wf_String_from_literal:
  "String_from_literal checks N str = Inr s \<Longrightarrow> wf_String s"
proof -
  assume h: "String_from_literal checks N str = Inr s"
  then obtain a where a: "arr_from_str checks N str = Inr a" "s = \<lparr>size_N = N, arr = a\<rparr>"
    by (cases "arr_from_str checks N str") (simp_all add: String_from_literal_def)
  from a(1) have "length a = N + 1"
    by (auto simp: arr_from_str_def length_copy_n simp del: copy_n.simps replicate.simps
        split: if_splits)
  with a(2) show "wf_String s" by (simp add: wf_String_def)
qed

section \<open>Claims\<close>

text \<open>
  C1. \<open>itoa<X>\<close> is claimed to have length \<open>floor(log10(X)) + 1\<close> for \<open>X > 0\<close> and the decimal
  digits of \<open>X\<close> as content, \<open>"0"\<close> for \<open>X = 0\<close>. Evaluated on the code: \<open>itoa<42>\<close> is a
  \<open>String<3>\<close> whose slot 0 still holds the zero of the initialisation, followed by
  \<open>'4'\<close>, \<open>'2'\<close> and the terminator; \<open>itoa<0>\<close> is a \<open>String<1>\<close> whose only content
  character is zero, not \<open>'0'\<close>.
\<close>

theorem itoa_42_and_0:
  "itoa checks 42 = Inr \<lparr>size_N = 3, arr = [0, 52, 50, 0]\<rparr> \<and>
   itoa checks 0 = Inr \<lparr>size_N = 1, arr = [0, 0]\<rparr>"
  by (simp add: itoa_def array_itoa_def log10.simps array_itoa_loop.simps String_from_array_def)

text \<open>
  C2. \<open>atoi()\<close> on \<open>itoa<X>\<close> is claimed to return \<open>X\<close>. Evaluated on the code with a 64-bit
  \<open>std::size_t\<close>: on \<open>itoa<42>\<close> it returns \<open>2^64 - 4758\<close>, the leading zero slot
  contributing \<open>(0 - 48) * 100\<close>; on \<open>itoa<0>\<close> it returns \<open>2^64 - 48\<close>.
\<close>

theorem atoi_itoa_42_and_0:
  "(case itoa checks 42 of Inl e \<Rightarrow> Inl e | Inr s \<Rightarrow> atoi char_signed s) =
     (Inr 18446744073709546858 :: failure + 64 word) \<and>
   (case itoa checks 0 of Inl e \<Rightarrow> Inl e | Inr s \<Rightarrow> atoi char_signed s) =
     (Inr 18446744073709551568 :: failure + 64 word)"
  by (simp add: itoa_def array_itoa_def log10.simps array_itoa_loop.simps String_from_array_def
      atoi_def array_at_def char_to_int_def)

text \<open>
  C3. Invariant I1 is claimed for every \<open>String<N>\<close> that any construction path produces.
  With checks disabled (\<open>NDEBUG\<close> or \<open>FS_NOASSERT\<close>) the constructor from a
  \<open>std::array<char, N + 1>\<close> stores the buffer as it is: from \<open>{'A', 'B'}\<close> it produces a
  \<open>String<1>\<close> whose slot 1 holds \<open>'B'\<close>.
\<close>

theorem String_from_array_unchecked_counterexample:
  "String_from_array False 1 [65, 66] = Inr \<lparr>size_N = 1, arr = [65, 66]\<rparr> \<and>
   wf_String \<lparr>size_N = 1, arr = [65, 66]\<rparr> \<and> \<not> I1 \<lparr>size_N = 1, arr = [65, 66]\<rparr>"
  by (simp add: String_from_array_def wf_String_def I1_def)

text \<open>
  C3, amended. Slot \<open>N\<close> holds the terminator in every instance produced by: the default
  constructor; the literal and the raw-buffer constructors, for a terminator-ended input
  under either build (the construction then succeeds) and for any input when checks are
  enabled (a produced instance passed the assertion); the single-character constructor;
  \<open>operator+\<close>, \<open>substring\<close> and \<open>itoa\<close>. Every operation on an existing instance is
  \<open>const\<close>, a function of the value here; assignment replaces an instance by another
  \<open>String<N>\<close> and keeps the invariant.
\<close>

theorem I1_established:
  "I1 (String_default N) \<and>
   (length str = N + 1 \<and> str ! N = 0 \<longrightarrow>
      (\<exists>s. String_from_literal checks N str = Inr s \<and> wf_String s \<and> I1 s)) \<and>
   (String_from_literal True N str = Inr s1 \<longrightarrow> I1 s1) \<and>
   (length buf = N + 1 \<and> buf ! N = 0 \<longrightarrow>
      (\<exists>s. String_from_array checks N buf = Inr s \<and> wf_String s \<and> I1 s)) \<and>
   (String_from_array True N buf = Inr s2 \<longrightarrow> I1 s2) \<and>
   (\<exists>s. String_from_char 1 c = Inr s \<and> I1 s) \<and>
   I1 (operator_plus a b) \<and>
   (substring checks Begin End s3 = Inr r1 \<longrightarrow> I1 r1) \<and>
   (itoa checks x = Inr r2 \<longrightarrow> I1 r2) \<and>
   (I1 rhs \<longrightarrow> I1 (operator_assign lhs rhs))"
proof -
  have d: "I1 (String_default N)"
    by (simp add: I1_def String_default_def del: replicate.simps)
  have l1: "length str = N + 1 \<and> str ! N = 0 \<longrightarrow>
      (\<exists>s. String_from_literal checks N str = Inr s \<and> wf_String s \<and> I1 s)"
  proof
    assume "length str = N + 1 \<and> str ! N = 0"
    then have z: "str ! N = 0" by simp
    from arr_from_str_terminated [OF z, of checks]
    obtain s where s: "String_from_literal checks N str = Inr s"
      by (auto simp: String_from_literal_def)
    with z I1_String_from_literal [OF s] wf_String_from_literal [OF s]
    show "\<exists>s. String_from_literal checks N str = Inr s \<and> wf_String s \<and> I1 s"
      by simp
  qed
  have l2: "String_from_literal True N str = Inr s1 \<longrightarrow> I1 s1"
  proof
    assume s: "String_from_literal True N str = Inr s1"
    then obtain a where "arr_from_str True N str = Inr a"
      by (cases "arr_from_str True N str") (simp_all add: String_from_literal_def)
    then have "str ! N = 0" by (rule arr_from_str_checked)
    with I1_String_from_literal [OF s] show "I1 s1" by simp
  qed
  have b1: "length buf = N + 1 \<and> buf ! N = 0 \<longrightarrow>
      (\<exists>s. String_from_array checks N buf = Inr s \<and> wf_String s \<and> I1 s)"
    by (simp add: String_from_array_def wf_String_def I1_def)
  have b2: "String_from_array True N buf = Inr s2 \<longrightarrow> I1 s2"
    by (auto simp: String_from_array_def I1_def split: if_splits)
  have c: "\<exists>s. String_from_char 1 c = Inr s \<and> I1 s"
    by (simp add: String_from_char_def I1_def)
  have a: "I1 rhs \<longrightarrow> I1 (operator_assign lhs rhs)"
    by (simp add: operator_assign_def)
  from d l1 l2 b1 b2 c a I1_operator_plus [of a b] I1_substring [of checks Begin End s3 r1]
    I1_itoa [of checks x r2]
  show ?thesis by blast
qed

theorem I1_established_witness:
  "length [97, 0 :: cchar] = 1 + 1 \<and> [97, 0 :: cchar] ! 1 = 0 \<and>
   String_from_literal True 1 [97, 0] = Inr \<lparr>size_N = 1, arr = [97, 0]\<rparr> \<and>
   String_from_array True 1 [98, 0] = Inr \<lparr>size_N = 1, arr = [98, 0]\<rparr> \<and>
   substring False 0 1 \<lparr>size_N = 2, arr = [97, 98, 0]\<rparr> = Inr \<lparr>size_N = 1, arr = [97, 0]\<rparr> \<and>
   itoa False 7 = Inr \<lparr>size_N = 2, arr = [0, 55, 0]\<rparr> \<and>
   I1 \<lparr>size_N = 1, arr = [97, 0]\<rparr> \<and> I1 \<lparr>size_N = 1, arr = [98, 0]\<rparr> \<and>
   I1 \<lparr>size_N = 2, arr = [0, 55, 0]\<rparr> \<and>
   (\<exists>s. String_from_literal False 1 [97, 0] = Inr s \<and> wf_String s \<and> I1 s) \<and>
   (\<exists>s. String_from_array False 1 [97, 0] = Inr s \<and> wf_String s \<and> I1 s) \<and>
   I1 (operator_assign \<lparr>size_N = 1, arr = [98, 0]\<rparr> \<lparr>size_N = 1, arr = [97, 0]\<rparr>)"
proof -
  have z: "length [97, 0 :: cchar] = 1 + 1 \<and> [97, 0 :: cchar] ! 1 = 0" by simp
  have l: "String_from_literal True 1 [97, 0] = Inr \<lparr>size_N = 1, arr = [97, 0]\<rparr>"
    by (simp add: String_from_literal_def arr_from_str_def)
  have b: "String_from_array True 1 [98, 0] = Inr \<lparr>size_N = 1, arr = [98, 0]\<rparr>"
    by (simp add: String_from_array_def)
  have s: "substring False 0 1 \<lparr>size_N = 2, arr = [97, 98, 0]\<rparr> = Inr \<lparr>size_N = 1, arr = [97, 0]\<rparr>"
    by (simp add: substring_def operator_subscript_def array_at_def String_default_def)
  have i: "itoa False 7 = Inr \<lparr>size_N = 2, arr = [0, 55, 0]\<rparr>"
    by (simp add: itoa_def array_itoa_def log10.simps array_itoa_loop.simps String_from_array_def)
  note r = I1_established [where N = 1 and str = "[97, 0]" and checks = False
      and ?s1.0 = "\<lparr>size_N = 1, arr = [97, 0]\<rparr>" and buf = "[98, 0]"
      and ?s2.0 = "\<lparr>size_N = 1, arr = [98, 0]\<rparr>" and Begin = 0 and End = 1
      and ?s3.0 = "\<lparr>size_N = 2, arr = [97, 98, 0]\<rparr>" and ?r1.0 = "\<lparr>size_N = 1, arr = [97, 0]\<rparr>"
      and x = 7 and ?r2.0 = "\<lparr>size_N = 2, arr = [0, 55, 0]\<rparr>"
      and rhs = "\<lparr>size_N = 1, arr = [97, 0]\<rparr>" and lhs = "\<lparr>size_N = 1, arr = [98, 0]\<rparr>"]
  from r l have 1: "I1 \<lparr>size_N = 1, arr = [97, 0]\<rparr>" by blast
  from r b have 2: "I1 \<lparr>size_N = 1, arr = [98, 0]\<rparr>" by blast
  from r i have 3: "I1 \<lparr>size_N = 2, arr = [0, 55, 0]\<rparr>" by blast
  from r z have 4: "\<exists>s. String_from_literal False 1 [97, 0] = Inr s \<and> wf_String s \<and> I1 s"
    by blast
  from I1_established [where N = 1 and buf = "[97, 0]" and checks = False] z
  have 5: "\<exists>s. String_from_array False 1 [97, 0] = Inr s \<and> wf_String s \<and> I1 s"
    by blast
  from r 1 have 6: "I1 (operator_assign \<lparr>size_N = 1, arr = [98, 0]\<rparr> \<lparr>size_N = 1, arr = [97, 0]\<rparr>)"
    by blast
  from z l b s i 1 2 3 4 5 6 show ?thesis by blast
qed

text \<open>
  C4. \<open>streq(a, b)\<close> and \<open>a == b\<close> are claimed true exactly when \<open>N = M\<close> and the
  characters at positions \<open>0..N-1\<close> agree. \<open>std::equal\<close> runs over all \<open>N + 1\<close> slots:
  the two \<open>String<1>\<close> built with checks disabled from \<open>{'A', 'B'}\<close> and \<open>{'A', 'C'}\<close>
  have the same length and the same content character, and compare unequal.
\<close>

theorem streq_terminator_slot_counterexample:
  "String_from_array False 1 [65, 66] = Inr \<lparr>size_N = 1, arr = [65, 66]\<rparr> \<and>
   String_from_array False 1 [65, 67] = Inr \<lparr>size_N = 1, arr = [65, 67]\<rparr> \<and>
   size_N \<lparr>size_N = 1, arr = [65, 66]\<rparr> = size_N \<lparr>size_N = 1, arr = [65, 67]\<rparr> \<and>
   arr \<lparr>size_N = 1, arr = [65, 66]\<rparr> ! 0 = arr \<lparr>size_N = 1, arr = [65, 67]\<rparr> ! 0 \<and>
   streq \<lparr>size_N = 1, arr = [65, 66]\<rparr> \<lparr>size_N = 1, arr = [65, 67]\<rparr> = Some False \<and>
   operator_eq \<lparr>size_N = 1, arr = [65, 66]\<rparr> \<lparr>size_N = 1, arr = [65, 67]\<rparr> = Some False"
  by (simp add: String_from_array_def streq_def operator_eq_def)

text \<open>
  C4, amended. When \<open>N \<noteq> M\<close>, \<open>streq(a, b)\<close> and \<open>a == b\<close> are false from the lengths
  alone, whatever the buffers hold. Otherwise they are true exactly when the characters
  at positions \<open>0..N\<close> agree, the \<open>N\<close> content characters and slot \<open>N\<close>; for two instances
  with the terminator in slot \<open>N\<close> that is exactly when the characters at positions
  \<open>0..N-1\<close> agree.
\<close>

theorem streq_iff:
  "(size_N a \<noteq> size_N b \<longrightarrow> streq a b = Some False \<and> operator_eq a b = Some False) \<and>
   (wf_String a \<and> wf_String b \<longrightarrow>
      streq a b = Some (size_N a = size_N b \<and> (\<forall>i \<le> size_N a. arr a ! i = arr b ! i)) \<and>
      operator_eq a b = Some (size_N a = size_N b \<and> (\<forall>i \<le> size_N a. arr a ! i = arr b ! i))) \<and>
   (wf_String a \<and> wf_String b \<and> I1 a \<and> I1 b \<longrightarrow>
      streq a b = Some (size_N a = size_N b \<and> (\<forall>i < size_N a. arr a ! i = arr b ! i)) \<and>
      operator_eq a b = Some (size_N a = size_N b \<and> (\<forall>i < size_N a. arr a ! i = arr b ! i)))"
proof -
  have neq: "size_N a \<noteq> size_N b \<longrightarrow> streq a b = Some False"
    by (simp add: streq_def)
  have "streq a b = Some (size_N a = size_N b \<and> (\<forall>i < size_N a. arr a ! i = arr b ! i))"
    if wf: "wf_String a" "wf_String b" and t: "I1 a" "I1 b"
  proof (cases "size_N a = size_N b")
    case False
    then show ?thesis by (simp add: streq_def)
  next
    case True
    from wf True have len: "length (arr a) = length (arr b)" "length (arr a) = Suc (size_N a)"
      by (simp_all add: wf_String_def)
    have "(arr a = arr b) = (\<forall>i < size_N a. arr a ! i = arr b ! i)"
    proof
      assume "arr a = arr b"
      then show "\<forall>i < size_N a. arr a ! i = arr b ! i" by simp
    next
      assume h: "\<forall>i < size_N a. arr a ! i = arr b ! i"
      show "arr a = arr b"
      proof (rule nth_equalityI [OF len(1)])
        fix i assume "i < length (arr a)"
        with len(2) have "i < size_N a \<or> i = size_N a" by auto
        then show "arr a ! i = arr b ! i"
          using h t True by (auto simp: I1_def)
      qed
    qed
    with True len(1) show ?thesis
      by (simp add: streq_def std_equal_same_length)
  qed
  then have c3: "wf_String a \<and> wf_String b \<and> I1 a \<and> I1 b \<longrightarrow>
      streq a b = Some (size_N a = size_N b \<and> (\<forall>i < size_N a. arr a ! i = arr b ! i)) \<and>
      operator_eq a b = Some (size_N a = size_N b \<and> (\<forall>i < size_N a. arr a ! i = arr b ! i))"
    by (simp add: operator_eq_def)
  have c2: "wf_String a \<and> wf_String b \<longrightarrow>
      streq a b = Some (size_N a = size_N b \<and> (\<forall>i \<le> size_N a. arr a ! i = arr b ! i)) \<and>
      operator_eq a b = Some (size_N a = size_N b \<and> (\<forall>i \<le> size_N a. arr a ! i = arr b ! i))"
    using streq_all_slots [of a b] by (simp add: operator_eq_def)
  have c1: "size_N a \<noteq> size_N b \<longrightarrow> streq a b = Some False \<and> operator_eq a b = Some False"
    using neq by (simp add: operator_eq_def)
  from c1 c2 c3 show ?thesis by blast
qed

theorem streq_iff_witness:
  "size_N \<lparr>size_N = 3, arr = [97, 98, 99, 0]\<rparr> \<noteq> size_N \<lparr>size_N = 4, arr = [97, 98, 99, 100, 0]\<rparr> \<and>
   streq \<lparr>size_N = 3, arr = [97, 98, 99, 0]\<rparr> \<lparr>size_N = 4, arr = [97, 98, 99, 100, 0]\<rparr> = Some False \<and>
   wf_String \<lparr>size_N = 2, arr = [97, 98, 0]\<rparr> \<and> I1 \<lparr>size_N = 2, arr = [97, 98, 0]\<rparr> \<and>
   wf_String \<lparr>size_N = 2, arr = [97, 99, 0]\<rparr> \<and> I1 \<lparr>size_N = 2, arr = [97, 99, 0]\<rparr> \<and>
   streq \<lparr>size_N = 2, arr = [97, 98, 0]\<rparr> \<lparr>size_N = 2, arr = [97, 98, 0]\<rparr> = Some True \<and>
   streq \<lparr>size_N = 2, arr = [97, 98, 0]\<rparr> \<lparr>size_N = 2, arr = [97, 99, 0]\<rparr> = Some False \<and>
   wf_String \<lparr>size_N = 1, arr = [65, 66]\<rparr> \<and> wf_String \<lparr>size_N = 1, arr = [65, 67]\<rparr> \<and>
   streq \<lparr>size_N = 1, arr = [65, 66]\<rparr> \<lparr>size_N = 1, arr = [65, 66]\<rparr> = Some True \<and>
   streq \<lparr>size_N = 1, arr = [65, 66]\<rparr> \<lparr>size_N = 1, arr = [65, 67]\<rparr> = Some False"
proof -
  have u: "wf_String \<lparr>size_N = 1, arr = [65, 66]\<rparr> \<and> wf_String \<lparr>size_N = 1, arr = [65, 67]\<rparr>"
    by (simp add: wf_String_def)
  have 4: "streq \<lparr>size_N = 1, arr = [65, 66]\<rparr> \<lparr>size_N = 1, arr = [65, 66]\<rparr> = Some True"
    using u streq_iff [of "\<lparr>size_N = 1, arr = [65, 66]\<rparr>" "\<lparr>size_N = 1, arr = [65, 66]\<rparr>"]
    by simp
  have "streq \<lparr>size_N = 1, arr = [65, 66]\<rparr> \<lparr>size_N = 1, arr = [65, 67]\<rparr> =
      Some (\<forall>i \<le> 1. [65, 66 :: cchar] ! i = [65, 67] ! i)"
    using u streq_iff [of "\<lparr>size_N = 1, arr = [65, 66]\<rparr>" "\<lparr>size_N = 1, arr = [65, 67]\<rparr>"]
    by simp
  moreover have "\<not> (\<forall>i \<le> 1. [65, 66 :: cchar] ! i = [65, 67] ! i)"
  proof
    assume h: "\<forall>i \<le> 1. [65, 66 :: cchar] ! i = [65, 67] ! i"
    have "(1::nat) \<le> 1" by simp
    with h have "[65, 66 :: cchar] ! 1 = [65, 67] ! 1" by blast
    then show False by simp
  qed
  ultimately have 5: "streq \<lparr>size_N = 1, arr = [65, 66]\<rparr> \<lparr>size_N = 1, arr = [65, 67]\<rparr> = Some False"
    by simp
  have a: "wf_String \<lparr>size_N = 2, arr = [97, 98, 0]\<rparr> \<and> I1 \<lparr>size_N = 2, arr = [97, 98, 0]\<rparr>"
    by (simp add: wf_String_def I1_def)
  have b: "wf_String \<lparr>size_N = 2, arr = [97, 99, 0]\<rparr> \<and> I1 \<lparr>size_N = 2, arr = [97, 99, 0]\<rparr>"
    by (simp add: wf_String_def I1_def)
  have 1: "streq \<lparr>size_N = 3, arr = [97, 98, 99, 0]\<rparr> \<lparr>size_N = 4, arr = [97, 98, 99, 100, 0]\<rparr> = Some False"
    using streq_iff [of "\<lparr>size_N = 3, arr = [97, 98, 99, 0]\<rparr>" "\<lparr>size_N = 4, arr = [97, 98, 99, 100, 0]\<rparr>"]
    by simp
  have 2: "streq \<lparr>size_N = 2, arr = [97, 98, 0]\<rparr> \<lparr>size_N = 2, arr = [97, 98, 0]\<rparr> = Some True"
    using a streq_iff [of "\<lparr>size_N = 2, arr = [97, 98, 0]\<rparr>" "\<lparr>size_N = 2, arr = [97, 98, 0]\<rparr>"]
    by simp
  have "streq \<lparr>size_N = 2, arr = [97, 98, 0]\<rparr> \<lparr>size_N = 2, arr = [97, 99, 0]\<rparr> =
      Some (size_N \<lparr>size_N = 2, arr = [97, 98, 0 :: cchar]\<rparr> = size_N \<lparr>size_N = 2, arr = [97, 99, 0 :: cchar]\<rparr> \<and>
        (\<forall>i < size_N \<lparr>size_N = 2, arr = [97, 98, 0 :: cchar]\<rparr>.
           arr \<lparr>size_N = 2, arr = [97, 98, 0]\<rparr> ! i = arr \<lparr>size_N = 2, arr = [97, 99, 0]\<rparr> ! i))"
    using a b streq_iff [of "\<lparr>size_N = 2, arr = [97, 98, 0]\<rparr>" "\<lparr>size_N = 2, arr = [97, 99, 0]\<rparr>"]
    by blast
  then have "streq \<lparr>size_N = 2, arr = [97, 98, 0]\<rparr> \<lparr>size_N = 2, arr = [97, 99, 0]\<rparr> =
      Some (\<forall>i < 2. [97, 98, 0 :: cchar] ! i = [97, 99, 0] ! i)"
    by simp
  moreover have "\<not> (\<forall>i < 2. [97, 98, 0 :: cchar] ! i = [97, 99, 0] ! i)"
  proof
    assume h: "\<forall>i < 2. [97, 98, 0 :: cchar] ! i = [97, 99, 0] ! i"
    have "(1::nat) < 2" by simp
    with h have "[97, 98, 0 :: cchar] ! 1 = [97, 99, 0] ! 1" by blast
    then show False by simp
  qed
  ultimately have 3: "streq \<lparr>size_N = 2, arr = [97, 98, 0]\<rparr> \<lparr>size_N = 2, arr = [97, 99, 0]\<rparr> = Some False"
    by simp
  show ?thesis using a b u 1 2 3 4 5 by simp
qed

text \<open>
  C5. For \<open>a : String<N>\<close> and \<open>b : String<M>\<close>, \<open>a + b\<close> is a \<open>String<N + M>\<close> holding the
  \<open>N\<close> content characters of \<open>a\<close> at positions \<open>0..N-1\<close>, the \<open>M\<close> content characters of
  \<open>b\<close> at positions \<open>N..N+M-1\<close>, and the terminator in slot \<open>N + M\<close>.
\<close>

theorem operator_plus_content:
  assumes "wf_String a" and "wf_String b"
  shows "size_N (operator_plus a b) = size_N a + size_N b \<and>
         wf_String (operator_plus a b) \<and>
         (\<forall>i < size_N a. arr (operator_plus a b) ! i = arr a ! i) \<and>
         (\<forall>i < size_N b. arr (operator_plus a b) ! (size_N a + i) = arr b ! i) \<and>
         arr (operator_plus a b) ! (size_N a + size_N b) = 0"
proof -
  have len: "length (arr a) = size_N a + 1" "length (arr b) = size_N b + 1"
    using assms by (simp_all add: wf_String_def)
  have "\<forall>i < size_N a. arr (operator_plus a b) ! i = arr a ! i"
    using len by (simp add: arr_operator_plus [OF assms] nth_append)
  moreover have "\<forall>i < size_N b. arr (operator_plus a b) ! (size_N a + i) = arr b ! i"
    using len by (simp add: arr_operator_plus [OF assms] nth_append)
  moreover have "arr (operator_plus a b) ! (size_N a + size_N b) = 0"
    using len by (simp add: arr_operator_plus [OF assms] nth_append)
  ultimately show ?thesis
    using assms by (simp add: size_operator_plus wf_String_operator_plus)
qed

theorem operator_plus_content_witness:
  "wf_String \<lparr>size_N = 2, arr = [97, 98, 0]\<rparr> \<and> wf_String \<lparr>size_N = 1, arr = [99, 0]\<rparr> \<and>
   size_N (operator_plus \<lparr>size_N = 2, arr = [97, 98, 0]\<rparr> \<lparr>size_N = 1, arr = [99, 0]\<rparr>) = 3 \<and>
   arr (operator_plus \<lparr>size_N = 2, arr = [97, 98, 0]\<rparr> \<lparr>size_N = 1, arr = [99, 0]\<rparr>) ! 0 = 97 \<and>
   arr (operator_plus \<lparr>size_N = 2, arr = [97, 98, 0]\<rparr> \<lparr>size_N = 1, arr = [99, 0]\<rparr>) ! 1 = 98 \<and>
   arr (operator_plus \<lparr>size_N = 2, arr = [97, 98, 0]\<rparr> \<lparr>size_N = 1, arr = [99, 0]\<rparr>) ! 2 = 99 \<and>
   arr (operator_plus \<lparr>size_N = 2, arr = [97, 98, 0]\<rparr> \<lparr>size_N = 1, arr = [99, 0]\<rparr>) ! 3 = 0"
proof -
  have a: "wf_String \<lparr>size_N = 2, arr = [97, 98, 0]\<rparr>" by (simp add: wf_String_def)
  have b: "wf_String \<lparr>size_N = 1, arr = [99, 0]\<rparr>" by (simp add: wf_String_def)
  note r = operator_plus_content [OF a b]
  from r have "arr (operator_plus \<lparr>size_N = 2, arr = [97, 98, 0]\<rparr> \<lparr>size_N = 1, arr = [99, 0]\<rparr>) ! 0 = 97"
    by simp
  moreover from r have "arr (operator_plus \<lparr>size_N = 2, arr = [97, 98, 0]\<rparr> \<lparr>size_N = 1, arr = [99, 0]\<rparr>) ! 1 = 98"
    by simp
  moreover from r have "arr (operator_plus \<lparr>size_N = 2, arr = [97, 98, 0]\<rparr> \<lparr>size_N = 1, arr = [99, 0]\<rparr>) ! 2 = 99"
    by simp
  moreover from r have "arr (operator_plus \<lparr>size_N = 2, arr = [97, 98, 0]\<rparr> \<lparr>size_N = 1, arr = [99, 0]\<rparr>) ! 3 = 0"
    by simp
  ultimately show ?thesis using a b r by simp
qed

text \<open>
  C6. For \<open>a : String<N1>\<close>, \<open>b : String<N2>\<close>, \<open>c : String<N3>\<close>, \<open>(a + b) + c\<close> and
  \<open>a + (b + c)\<close> are the same \<open>String<N1 + N2 + N3>\<close>: the same length, the same character in
  every slot, and \<open>streq\<close> holds between them.
\<close>

theorem operator_plus_assoc:
  assumes "wf_String a" and "wf_String b" and "wf_String c"
  shows "operator_plus (operator_plus a b) c = operator_plus a (operator_plus b c) \<and>
         size_N (operator_plus (operator_plus a b) c) = size_N a + size_N b + size_N c \<and>
         streq (operator_plus (operator_plus a b) c) (operator_plus a (operator_plus b c)) = Some True"
proof -
  have len: "length (arr a) = size_N a + 1" "length (arr b) = size_N b + 1"
    "length (arr c) = size_N c + 1"
    using assms by (simp_all add: wf_String_def)
  have ab: "wf_String (operator_plus a b)" and bc: "wf_String (operator_plus b c)"
    using assms by (simp_all add: wf_String_operator_plus)
  have l: "operator_plus (operator_plus a b) c =
      \<lparr>size_N = size_N a + size_N b + size_N c,
       arr = take (size_N a) (arr a) @ take (size_N b) (arr b) @ take (size_N c) (arr c) @ [0]\<rparr>"
    by (subst operator_plus_eq [OF ab assms(3)])
      (simp add: size_operator_plus arr_operator_plus [OF assms(1,2)] len)
  have r: "operator_plus a (operator_plus b c) =
      \<lparr>size_N = size_N a + size_N b + size_N c,
       arr = take (size_N a) (arr a) @ take (size_N b) (arr b) @ take (size_N c) (arr c) @ [0]\<rparr>"
    by (subst operator_plus_eq [OF assms(1) bc])
      (simp add: size_operator_plus arr_operator_plus [OF assms(2,3)] len)
  have eq: "operator_plus (operator_plus a b) c = operator_plus a (operator_plus b c)"
    by (simp only: l r)
  have sz: "size_N (operator_plus (operator_plus a b) c) = size_N a + size_N b + size_N c"
    by (simp add: size_operator_plus)
  have "streq (operator_plus a (operator_plus b c)) (operator_plus a (operator_plus b c)) = Some True"
    by (simp add: streq_def std_equal_same_length)
  with eq sz show ?thesis by simp
qed

theorem operator_plus_assoc_witness:
  "wf_String \<lparr>size_N = 1, arr = [97, 0]\<rparr> \<and> wf_String \<lparr>size_N = 0, arr = [0]\<rparr> \<and>
   wf_String \<lparr>size_N = 2, arr = [98, 99, 0]\<rparr> \<and>
   operator_plus (operator_plus \<lparr>size_N = 1, arr = [97, 0]\<rparr> \<lparr>size_N = 0, arr = [0]\<rparr>)
     \<lparr>size_N = 2, arr = [98, 99, 0]\<rparr> =
   operator_plus \<lparr>size_N = 1, arr = [97, 0]\<rparr>
     (operator_plus \<lparr>size_N = 0, arr = [0]\<rparr> \<lparr>size_N = 2, arr = [98, 99, 0]\<rparr>)"
proof -
  have a: "wf_String \<lparr>size_N = 1, arr = [97, 0]\<rparr>" by (simp add: wf_String_def)
  have b: "wf_String \<lparr>size_N = 0, arr = [0]\<rparr>" by (simp add: wf_String_def)
  have c: "wf_String \<lparr>size_N = 2, arr = [98, 99, 0]\<rparr>" by (simp add: wf_String_def)
  show ?thesis using a b c operator_plus_assoc [OF a b c] by blast
qed

text \<open>
  C7. \<open>substring<0, N>(s)\<close> is claimed to reproduce every \<open>s\<close> exactly. The result's slot
  \<open>N\<close> is always written with the terminator: on the \<open>String<1>\<close> built with checks
  disabled from \<open>{'A', 'B'}\<close>, \<open>substring<0, 1>\<close> returns the buffer \<open>{'A', 0}\<close>.
\<close>

theorem substring_whole_counterexample:
  "String_from_array False 1 [65, 66] = Inr \<lparr>size_N = 1, arr = [65, 66]\<rparr> \<and>
   substring False 0 1 \<lparr>size_N = 1, arr = [65, 66]\<rparr> = Inr \<lparr>size_N = 1, arr = [65, 0]\<rparr> \<and>
   \<lparr>size_N = 1, arr = [65, 0 :: cchar]\<rparr> \<noteq> \<lparr>size_N = 1, arr = [65, 66]\<rparr>"
  by (simp add: String_from_array_def substring_def operator_subscript_def array_at_def
      String_default_def)

text \<open>
  C7, amended. For \<open>0 \<le> Begin \<le> End \<le> N\<close>, \<open>substring<Begin, End>(s)\<close> is a
  \<open>String<End - Begin>\<close> whose character \<open>i\<close> is the character \<open>Begin + i\<close> of \<open>s\<close>, with the
  terminator in slot \<open>End - Begin\<close>; other bounds do not satisfy the \<open>requires\<close> clause and
  are rejected at compile time. \<open>substring<0, N>(s)\<close> is \<open>s\<close> with the terminator written
  to slot \<open>N\<close>, which is \<open>s\<close> itself when \<open>s\<close> has its terminator in place, and
  \<open>substring<k, k>(s)\<close> is the instance of length 0.
\<close>

theorem substring_slice:
  assumes "wf_String s"
  shows "(Begin \<le> End \<and> End \<le> size_N s \<longrightarrow>
            (\<exists>r. substring checks Begin End s = Inr r \<and> size_N r = End - Begin \<and> wf_String r \<and>
                 (\<forall>i < End - Begin. arr r ! i = arr s ! (Begin + i)) \<and>
                 arr r ! (End - Begin) = 0)) \<and>
         (\<not> (Begin \<le> End \<and> End \<le> size_N s) \<longrightarrow> substring checks Begin End s = Inl Rejected) \<and>
         substring checks 0 (size_N s) s =
           Inr \<lparr>size_N = size_N s, arr = (arr s)[size_N s := 0]\<rparr> \<and>
         (I1 s \<longrightarrow> substring checks 0 (size_N s) s = Inr s) \<and>
         (k \<le> size_N s \<longrightarrow> substring checks k k s = Inr \<lparr>size_N = 0, arr = [0]\<rparr>)"
proof -
  note whole0 = substring_whole [OF assms, of checks]
  have slice: "Begin \<le> End \<and> End \<le> size_N s \<longrightarrow>
            (\<exists>r. substring checks Begin End s = Inr r \<and> size_N r = End - Begin \<and> wf_String r \<and>
                 (\<forall>i < End - Begin. arr r ! i = arr s ! (Begin + i)) \<and>
                 arr r ! (End - Begin) = 0)"
  proof
    assume b: "Begin \<le> End \<and> End \<le> size_N s"
    from substring_Inr [OF assms, of Begin End checks] b
    obtain a where a: "substring checks Begin End s = Inr \<lparr>size_N = End - Begin, arr = a\<rparr>"
      "length a = End - Begin + 1" "\<forall>i < End - Begin. a ! i = arr s ! (Begin + i)"
      "a ! (End - Begin) = 0"
      by auto
    then show "\<exists>r. substring checks Begin End s = Inr r \<and> size_N r = End - Begin \<and> wf_String r \<and>
                 (\<forall>i < End - Begin. arr r ! i = arr s ! (Begin + i)) \<and>
                 arr r ! (End - Begin) = 0"
      by (simp add: wf_String_def)
  qed
  have rej: "\<not> (Begin \<le> End \<and> End \<le> size_N s) \<longrightarrow> substring checks Begin End s = Inl Rejected"
    by (auto simp: substring_def)
  have whole: "I1 s \<longrightarrow> substring checks 0 (size_N s) s = Inr s"
  proof
    assume t: "I1 s"
    from substring_Inr [OF assms, of 0 "size_N s" checks]
    obtain a where a: "substring checks 0 (size_N s) s = Inr \<lparr>size_N = size_N s, arr = a\<rparr>"
      "length a = size_N s + 1" "\<forall>i < size_N s. a ! i = arr s ! i" "a ! size_N s = 0"
      by auto
    have "a = arr s"
    proof (rule nth_equalityI)
      show "length a = length (arr s)" using a(2) assms by (simp add: wf_String_def)
    next
      fix i assume "i < length a"
      with a(2) have "i < size_N s \<or> i = size_N s" by auto
      then show "a ! i = arr s ! i" using a(3,4) t by (auto simp: I1_def)
    qed
    with a(1) show "substring checks 0 (size_N s) s = Inr s" by simp
  qed
  have empty: "k \<le> size_N s \<longrightarrow> substring checks k k s = Inr \<lparr>size_N = 0, arr = [0]\<rparr>"
    by (simp add: substring_def String_default_def)
  from slice rej whole0 whole empty show ?thesis by blast
qed

theorem substring_slice_witness:
  "wf_String \<lparr>size_N = 3, arr = [97, 98, 99, 0]\<rparr> \<and> I1 \<lparr>size_N = 3, arr = [97, 98, 99, 0]\<rparr> \<and>
   (\<exists>r. substring True 1 3 \<lparr>size_N = 3, arr = [97, 98, 99, 0]\<rparr> = Inr r \<and> size_N r = 2 \<and>
        arr r ! 0 = 98 \<and> arr r ! 1 = 99 \<and> arr r ! 2 = 0) \<and>
   substring True 2 1 \<lparr>size_N = 3, arr = [97, 98, 99, 0]\<rparr> = Inl Rejected \<and>
   substring True 1 4 \<lparr>size_N = 3, arr = [97, 98, 99, 0]\<rparr> = Inl Rejected \<and>
   substring True 0 3 \<lparr>size_N = 3, arr = [97, 98, 99, 0]\<rparr> = Inr \<lparr>size_N = 3, arr = [97, 98, 99, 0]\<rparr> \<and>
   substring True 2 2 \<lparr>size_N = 3, arr = [97, 98, 99, 0]\<rparr> = Inr \<lparr>size_N = 0, arr = [0]\<rparr> \<and>
   wf_String \<lparr>size_N = 1, arr = [65, 66]\<rparr> \<and>
   substring False 0 1 \<lparr>size_N = 1, arr = [65, 66]\<rparr> = Inr \<lparr>size_N = 1, arr = [65, 0]\<rparr>"
proof -
  have v: "wf_String \<lparr>size_N = 1, arr = [65, 66]\<rparr>" by (simp add: wf_String_def)
  have 6: "substring False 0 1 \<lparr>size_N = 1, arr = [65, 66]\<rparr> = Inr \<lparr>size_N = 1, arr = [65, 0]\<rparr>"
    using substring_slice [OF v, of _ _ False] by simp
  have w: "wf_String \<lparr>size_N = 3, arr = [97, 98, 99, 0]\<rparr>" by (simp add: wf_String_def)
  have t: "I1 \<lparr>size_N = 3, arr = [97, 98, 99, 0]\<rparr>" by (simp add: I1_def)
  from substring_slice [OF w, of 1 3 True]
  obtain r where r: "substring True 1 3 \<lparr>size_N = 3, arr = [97, 98, 99, 0]\<rparr> = Inr r" "size_N r = 2"
    "\<forall>i < 2. arr r ! i = [97, 98, 99, 0 :: cchar] ! (1 + i)" "arr r ! 2 = 0"
    by auto
  have "(0::nat) < 2" "(1::nat) < 2" by simp_all
  with r(3) have "arr r ! 0 = [97, 98, 99, 0 :: cchar] ! (1 + 0)" "arr r ! 1 = [97, 98, 99, 0 :: cchar] ! (1 + 1)"
    by blast+
  then have "arr r ! 0 = 98" "arr r ! 1 = 99" by simp_all
  with r have 1: "\<exists>r. substring True 1 3 \<lparr>size_N = 3, arr = [97, 98, 99, 0]\<rparr> = Inr r \<and> size_N r = 2 \<and>
        arr r ! 0 = 98 \<and> arr r ! 1 = 99 \<and> arr r ! 2 = 0"
    by simp
  have 2: "substring True 2 1 \<lparr>size_N = 3, arr = [97, 98, 99, 0]\<rparr> = Inl Rejected"
    using substring_slice [OF w, of 2 1 True] by simp
  have 3: "substring True 1 4 \<lparr>size_N = 3, arr = [97, 98, 99, 0]\<rparr> = Inl Rejected"
    using substring_slice [OF w, of 1 4 True] by simp
  have 4: "substring True 0 3 \<lparr>size_N = 3, arr = [97, 98, 99, 0]\<rparr> = Inr \<lparr>size_N = 3, arr = [97, 98, 99, 0]\<rparr>"
    using substring_slice [OF w, of _ _ True] t by simp
  have 5: "substring True 2 2 \<lparr>size_N = 3, arr = [97, 98, 99, 0]\<rparr> = Inr \<lparr>size_N = 0, arr = [0]\<rparr>"
    using substring_slice [OF w, of _ _ True 2] by simp
  from w t v 1 2 3 4 5 6 show ?thesis by blast
qed

text \<open>
  C8. On an instance of length \<open>N\<close>, \<open>operator[](i)\<close> with \<open>i < N\<close> returns the character
  in slot \<open>i\<close> whether checks are enabled or not, so the failure branch is not taken;
  with checks enabled, \<open>i \<ge> N\<close> ends in the assertion failure (message, then
  \<open>std::terminate\<close>); and for \<open>N \<ge> 1\<close> the index \<open>N - 1\<close> succeeds.
\<close>

theorem operator_subscript_bounds:
  assumes "wf_String s"
  shows "(i < size_N s \<longrightarrow> operator_subscript checks s i = Inr (arr s ! i)) \<and>
         (size_N s \<le> i \<longrightarrow>
            operator_subscript True s i = Inl (Terminated ''subscript index out of bounds'')) \<and>
         (1 \<le> size_N s \<longrightarrow>
            operator_subscript checks s (size_N s - 1) = Inr (arr s ! (size_N s - 1)))"
  using assms by (auto simp: operator_subscript_def array_at_def wf_String_def)

theorem operator_subscript_bounds_witness:
  "wf_String \<lparr>size_N = 3, arr = [97, 98, 99, 0]\<rparr> \<and>
   operator_subscript True \<lparr>size_N = 3, arr = [97, 98, 99, 0]\<rparr> 1 = Inr 98 \<and>
   operator_subscript True \<lparr>size_N = 3, arr = [97, 98, 99, 0]\<rparr> 2 = Inr 99 \<and>
   operator_subscript True \<lparr>size_N = 3, arr = [97, 98, 99, 0]\<rparr> 3 =
     Inl (Terminated ''subscript index out of bounds'')"
proof -
  have w: "wf_String \<lparr>size_N = 3, arr = [97, 98, 99, 0]\<rparr>" by (simp add: wf_String_def)
  have "operator_subscript True \<lparr>size_N = 3, arr = [97, 98, 99, 0]\<rparr> 1 = Inr 98"
    using operator_subscript_bounds [OF w, of 1 True] by simp
  moreover have "operator_subscript True \<lparr>size_N = 3, arr = [97, 98, 99, 0]\<rparr> 2 = Inr 99"
    using operator_subscript_bounds [OF w, of 2 True] by simp
  moreover have "operator_subscript True \<lparr>size_N = 3, arr = [97, 98, 99, 0]\<rparr> 3 =
      Inl (Terminated ''subscript index out of bounds'')"
    using operator_subscript_bounds [OF w, of 3 True] by simp
  ultimately show ?thesis using w by simp
qed

text \<open>
  C9. \<open>find(c)\<close> returns the smallest index \<open>i < N\<close> whose character is \<open>c\<close> when there is
  one, and \<open>N\<close> when \<open>c\<close> is not among the \<open>N\<close> content characters; the terminator slot
  is not scanned. No call of \<open>operator[]\<close> inside the loop fails.
\<close>

theorem find_String_first:
  assumes "wf_String s"
  shows "\<exists>k. find_String checks s c = Inr k \<and>
           (if \<exists>i < size_N s. arr s ! i = c
            then k < size_N s \<and> arr s ! k = c \<and> (\<forall>j < k. arr s ! j \<noteq> c)
            else k = size_N s)"
proof -
  from find_loop_spec [OF assms, of 0 checks c]
  obtain k where k: "find_loop checks s c 0 = Inr k" "k \<le> size_N s"
    "\<forall>j. j < k \<longrightarrow> arr s ! j \<noteq> c" "k < size_N s \<longrightarrow> arr s ! k = c"
    by auto
  show ?thesis
  proof (cases "\<exists>i < size_N s. arr s ! i = c")
    case True
    then obtain i where i: "i < size_N s" "arr s ! i = c" by blast
    with k(3) have "\<not> i < k" by blast
    with i(1) have "k < size_N s" by simp
    with k True show ?thesis by (simp add: find_String_def)
  next
    case False
    with k(2,4) have "k = size_N s" by (cases "k < size_N s") auto
    with k(1) False show ?thesis by (simp add: find_String_def)
  qed
qed

theorem find_String_first_witness:
  "wf_String \<lparr>size_N = 3, arr = [97, 98, 98, 0]\<rparr> \<and>
   find_String True \<lparr>size_N = 3, arr = [97, 98, 98, 0]\<rparr> 98 = Inr 1 \<and>
   find_String True \<lparr>size_N = 3, arr = [97, 98, 98, 0]\<rparr> 0 = Inr 3"
proof -
  have w: "wf_String \<lparr>size_N = 3, arr = [97, 98, 98, 0]\<rparr>" by (simp add: wf_String_def)
  have e: "\<exists>i < size_N \<lparr>size_N = 3, arr = [97, 98, 98, 0 :: cchar]\<rparr>.
      arr \<lparr>size_N = 3, arr = [97, 98, 98, 0]\<rparr> ! i = 98"
    by (rule exI [of _ 1]) simp
  have n: "\<not> (\<exists>i < size_N \<lparr>size_N = 3, arr = [97, 98, 98, 0 :: cchar]\<rparr>.
      arr \<lparr>size_N = 3, arr = [97, 98, 98, 0]\<rparr> ! i = 0)"
  proof
    assume "\<exists>i < size_N \<lparr>size_N = 3, arr = [97, 98, 98, 0 :: cchar]\<rparr>.
      arr \<lparr>size_N = 3, arr = [97, 98, 98, 0]\<rparr> ! i = 0"
    then obtain i where i: "i < 3" "[97, 98, 98, 0 :: cchar] ! i = 0" by auto
    from i(1) have "i = 0 \<or> i = 1 \<or> i = 2" by arith
    with i(2) show False by auto
  qed
  from find_String_first [OF w, of True 98] e
  obtain k where k: "find_String True \<lparr>size_N = 3, arr = [97, 98, 98, 0]\<rparr> 98 = Inr k"
    "k < 3" "[97, 98, 98, 0 :: cchar] ! k = 98" "\<forall>j < k. [97, 98, 98, 0 :: cchar] ! j \<noteq> 98"
    by auto
  have "k = 1"
  proof (rule ccontr)
    assume "k \<noteq> 1"
    with k(2) have "k = 0 \<or> k = 2" by arith
    then show False
    proof
      assume "k = 0" with k(3) show False by simp
    next
      assume "k = 2"
      then have "(1::nat) < k" by simp
      with k(4) have "[97, 98, 98, 0 :: cchar] ! 1 \<noteq> 98" by blast
      then show False by simp
    qed
  qed
  with k(1) have 1: "find_String True \<lparr>size_N = 3, arr = [97, 98, 98, 0]\<rparr> 98 = Inr 1" by simp
  from find_String_first [OF w, of True 0] n
  have 2: "find_String True \<lparr>size_N = 3, arr = [97, 98, 98, 0]\<rparr> 0 = Inr 3" by auto
  from w 1 2 show ?thesis by simp
qed

text \<open>
  C10. Whatever the \<open>N\<close> content characters are, \<open>atoi()\<close> does not fail and returns the sum
  over \<open>i < N\<close> of \<open>(c_i - 48) * 10^(N-1-i)\<close> reduced modulo \<open>2^w\<close>, \<open>w\<close> the width of
  \<open>std::size_t\<close> and \<open>c_i\<close> the value of the character as the platform's \<open>char\<close>; a
  character below \<open>'0'\<close> wraps around.
\<close>

theorem atoi_wraparound:
  assumes "wf_String s"
  shows "\<exists>r :: 'w::len word. atoi char_signed s = Inr r \<and>
           uint r = (\<Sum>i = 0..<size_N s.
                       (char_to_int char_signed (arr s ! i) - 48) * 10 ^ (size_N s - 1 - i))
                    mod 2 ^ LENGTH('w)"
  using atoi_loop_closed [OF assms, of 0 char_signed "0 :: 'w word"]
  by (simp add: atoi_def uint_word_of_int del: of_int_sum)

theorem atoi_wraparound_witness:
  "wf_String \<lparr>size_N = 2, arr = [49, 47, 0]\<rparr> \<and>
   (\<exists>r :: 64 word. atoi True \<lparr>size_N = 2, arr = [49, 47, 0]\<rparr> = Inr r \<and> uint r = 9) \<and>
   wf_String \<lparr>size_N = 1, arr = [47, 0]\<rparr> \<and>
   (\<exists>r :: 64 word. atoi True \<lparr>size_N = 1, arr = [47, 0]\<rparr> = Inr r \<and> uint r = 2 ^ 64 - 1)"
proof -
  have w: "wf_String \<lparr>size_N = 2, arr = [49, 47, 0]\<rparr>" by (simp add: wf_String_def)
  have v: "wf_String \<lparr>size_N = 1, arr = [47, 0]\<rparr>" by (simp add: wf_String_def)
  have "\<exists>r :: 64 word. atoi True \<lparr>size_N = 2, arr = [49, 47, 0]\<rparr> = Inr r \<and> uint r = 9"
    using atoi_wraparound [OF w, of True, where 'w = 64]
    by (simp add: char_to_int_def sum.atLeast0_lessThan_Suc numeral_2_eq_2)
  moreover have "\<exists>r :: 64 word. atoi True \<lparr>size_N = 1, arr = [47, 0]\<rparr> = Inr r \<and> uint r = 2 ^ 64 - 1"
    using atoi_wraparound [OF v, of True, where 'w = 64]
    by (simp add: char_to_int_def)
  ultimately show ?thesis using w v by simp
qed

end
